theory Spec2Isabelle
  imports Complex_Main
begin

section \<open>Data model of \<open>App.js\<close>\<close>

text \<open>
  The two player marks of \<open>PLAYER_MARKS = ["X", "O"]\<close>. \<open>MarkX\<close> is \<open>"X"\<close>, the spec's
  markA, which moves first; \<open>MarkO\<close> is \<open>"O"\<close>, the spec's markB, which the computer
  plays (\<open>O\<close> alone is HOL's relation composition).
\<close>

datatype mark = MarkX | MarkO

text \<open>
  One slot of the \<open>squares\<close> array. \<open>Null\<close> is the value every slot is created with
  (\<open>Array(9).fill(null)\<close>); \<open>Mk m\<close> is a placed mark; \<open>Hole\<close> is a slot that was never
  assigned, which an array gets when \<open>nextSquares[i] = mark\<close> is executed with an array
  index \<open>i\<close> beyond its length. A hole reads as \<open>undefined\<close>.
\<close>

datatype cell = Null | Hole | Mk mark

text \<open>JavaScript truthiness of a slot value: \<open>null\<close> and \<open>undefined\<close> are falsy,
  the strings \<open>"X"\<close> and \<open>"O"\<close> are truthy.\<close>

fun truthy :: "cell \<Rightarrow> bool" where
  "truthy (Mk m) = True"
| "truthy Null = False"
| "truthy Hole = False"

text \<open>
  An array index is an integer from 0 to \<open>2^32 - 2\<close>. A number from \<open>2^32 - 1\<close> on is an
  ordinary property key: a value stored under it is an own property of the array object
  beside its elements, and the length is not touched.
\<close>

definition is_array_index :: "nat \<Rightarrow> bool" where
  "is_array_index i = (i < 4294967295)"

text \<open>\<open>squares[i]\<close> at an array index: reading at or beyond the length gives \<open>undefined\<close>,
  as reading a hole does.\<close>

definition nth_js :: "cell list \<Rightarrow> nat \<Rightarrow> cell" where
  "nth_js squares i = (if i < length squares then squares ! i else Hole)"

text \<open>\<open>nextSquares[i] = v\<close> at an array index: inside the array the slot is overwritten;
  beyond it the array grows to length \<open>i + 1\<close> and the slots in between are holes.\<close>

definition assign :: "cell list \<Rightarrow> nat \<Rightarrow> cell \<Rightarrow> cell list" where
  "assign squares i v =
     (if i < length squares then squares[i := v]
      else squares @ replicate (i - length squares) Hole @ [v])"

text \<open>
  An array object is its elements together with its own properties under the keys that
  are not array indices. \<open>read_js\<close> is \<open>a[i]\<close> for any number \<open>i\<close>; \<open>slice_js\<close> is
  \<open>a.slice()\<close>, which copies the elements, holes included, and no other property;
  \<open>store_js\<close> is \<open>a[i] = v\<close> for any number \<open>i\<close>.
\<close>

definition read_js :: "cell list \<Rightarrow> (nat \<rightharpoonup> cell) \<Rightarrow> nat \<Rightarrow> cell" where
  "read_js elems props i =
     (if is_array_index i then nth_js elems i
      else (case props i of Some v \<Rightarrow> v | None \<Rightarrow> Hole))"

definition slice_js :: "cell list \<times> (nat \<rightharpoonup> cell) \<Rightarrow> cell list \<times> (nat \<rightharpoonup> cell)" where
  "slice_js a = (fst a, Map.empty)"

definition store_js ::
  "cell list \<times> (nat \<rightharpoonup> cell) \<Rightarrow> nat \<Rightarrow> cell \<Rightarrow> cell list \<times> (nat \<rightharpoonup> cell)" where
  "store_js a i v =
     (if is_array_index i then (assign (fst a) i v, snd a)
      else (fst a, (snd a)(i \<mapsto> v)))"

text \<open>The string a mark is in the source.\<close>

fun mark_str :: "mark \<Rightarrow> string" where
  "mark_str MarkX = ''X''"
| "mark_str MarkO = ''O''"

text \<open>The object \<open>{ winner, winLine }\<close> that \<open>calculateWinner\<close> returns; its \<open>null\<close>
  result is \<open>None\<close>.\<close>

record result =
  winner :: string
  winLine :: "nat list"

text \<open>The value of a slot as a string, for \<open>winner: squares[a]\<close>. It is only read on a
  truthy slot.\<close>

fun cell_str :: "cell \<Rightarrow> string" where
  "cell_str (Mk m) = mark_str m"
| "cell_str Null = ''null''"
| "cell_str Hole = ''undefined''"

section \<open>\<open>calculateWinner\<close>\<close>

definition lines :: "nat list list" where
  "lines = [[0,1,2], [3,4,5], [6,7,8],
            [0,3,6], [1,4,7], [2,5,8],
            [0,4,8], [2,4,6]]"

text \<open>The \<open>for (let line of lines)\<close> loop, as recursion over the lines still to check.\<close>

fun check_lines :: "cell list \<Rightarrow> nat list list \<Rightarrow> result option" where
  "check_lines squares [] = None"
| "check_lines squares (line # rest) =
     (let a = line ! 0; b = line ! 1; c = line ! 2 in
      if truthy (nth_js squares a)
         \<and> nth_js squares a = nth_js squares b
         \<and> nth_js squares a = nth_js squares c
      then Some \<lparr>winner = cell_str (nth_js squares a), winLine = line\<rparr>
      else check_lines squares rest)"

text \<open>\<open>squares.includes(null)\<close> compares with SameValueZero: a hole is \<open>undefined\<close>,
  which is not \<open>null\<close>.\<close>

definition calculateWinner :: "cell list \<Rightarrow> result option" where
  "calculateWinner squares =
     (case check_lines squares lines of
        Some r \<Rightarrow> Some r
      | None \<Rightarrow>
          if Null \<notin> set squares then Some \<lparr>winner = ''Draw'', winLine = []\<rparr>
          else None)"

section \<open>\<open>getRandomEmptyIndex\<close>\<close>

text \<open>
  \<open>squares.map((x,i) => x ? null : i).filter((x) => x !== null)\<close>. Both \<open>map\<close> and
  \<open>filter\<close> skip holes; a slot that is present gives \<open>null\<close> when it is truthy and its
  index otherwise, and \<open>filter\<close> keeps the indices.
\<close>

definition empties :: "cell list \<Rightarrow> nat list" where
  "empties squares =
     List.map_filter (\<lambda>(x, i). if x = Hole then None else if truthy x then None else Some i)
       (zip squares [0 ..< length squares])"

text \<open>
  \<open>Math.floor(Math.random() * empties.length)\<close> is some position below \<open>empties.length\<close>.
  The parameter \<open>r\<close>, a real number with \<open>0 \<le> r < 1\<close>, names that position as the floor of
  the exact product \<open>r * empties.length\<close>; every position below the length is named by
  some \<open>r\<close>. The code floors the product rounded to a double, so for the value \<open>v\<close> that
  \<open>Math.random()\<close> returned the position it takes may be the one named by an \<open>r\<close> other
  than \<open>v\<close>.
\<close>

definition getRandomEmptyIndex :: "cell list \<Rightarrow> real \<Rightarrow> nat option" where
  "getRandomEmptyIndex squares r =
     (let es = empties squares in
      if length es = 0 then None
      else Some (es ! nat \<lfloor>r * real (length es)\<rfloor>))"

section \<open>The component state and its handlers\<close>

datatype mode = Pvp | Ai

text \<open>
  The \<open>useState\<close> cells of \<open>App\<close>. The array object in the state variable \<open>squares\<close>
  is the two fields \<open>squares\<close>, its elements, and \<open>squaresProps\<close>, its own properties under
  keys that are not array indices. The field \<open>curWinLine\<close> is the state variable
  \<open>winLine\<close> (\<open>None\<close> is \<open>null\<close>); it is renamed because \<open>winLine\<close> is a field of the
  result object too.
\<close>

record state =
  theme :: string
  mode :: mode
  squares :: "cell list"
  squaresProps :: "nat \<rightharpoonup> cell"
  step :: nat
  isXNext :: bool
  status :: string
  curWinLine :: "nat list option"

text \<open>The state of the first render.\<close>

definition initial :: state where
  "initial = \<lparr>theme = ''light'', mode = Pvp, squares = replicate 9 Null,
              squaresProps = Map.empty, step = 0,
              isXNext = True, status = [], curWinLine = None\<rparr>"

text \<open>
  \<open>handleSquare(i, markOverride)\<close>. An absent \<open>markOverride\<close> is \<open>None\<close>. A
  \<open>winLine\<close> of \<open>[]\<close> (a draw) is truthy, as every array is. Every \<open>return\<close> before the
  setters leaves the state as it is.
\<close>

definition handleSquare :: "state \<Rightarrow> nat \<Rightarrow> mark option \<Rightarrow> state" where
  "handleSquare s i markOverride =
     (if curWinLine s \<noteq> None \<or> truthy (read_js (squares s) (squaresProps s) i) then s
      else
        let mk = (case markOverride of Some m \<Rightarrow> m | None \<Rightarrow> (if isXNext s then MarkX else MarkO)) in
        if mode s = Ai \<and> \<not> isXNext s \<and> markOverride = None then s
        else
          let nextSquares = store_js (slice_js (squares s, squaresProps s)) i (Mk mk) in
          s\<lparr>squares := fst nextSquares,
            squaresProps := snd nextSquares,
            step := step s + 1,
            isXNext := \<not> isXNext s\<rparr>)"

definition handleReset :: "state \<Rightarrow> state" where
  "handleReset s = s\<lparr>squares := replicate 9 Null, squaresProps := Map.empty, step := 0,
                     isXNext := True, status := ''Current: X'', curWinLine := None\<rparr>"

text \<open>\<open>setMode(modeKey); handleReset();\<close>\<close>

definition handleModeChange :: "state \<Rightarrow> mode \<Rightarrow> state" where
  "handleModeChange s modeKey = handleReset (s\<lparr>mode := modeKey\<rparr>)"

definition toggleTheme :: "state \<Rightarrow> state" where
  "toggleTheme s = s\<lparr>theme := (if theme s = ''light'' then ''dark'' else ''light'')\<rparr>"

text \<open>
  The winner detection effect, which runs after every render in which \<open>squares\<close> or
  \<open>isXNext\<close> changed and stores the outcome of the board in \<open>status\<close> and \<open>winLine\<close>.
\<close>

definition winnerEffect :: "state \<Rightarrow> state" where
  "winnerEffect s =
     (case calculateWinner (squares s) of
        Some r \<Rightarrow>
          s\<lparr>status := (if winner r = ''Draw'' then ''It'' @ [CHR 0x27] @ ''s a Draw!''
                       else ''Winner: '' @ winner r),
            curWinLine := Some (winLine r)\<rparr>
      | None \<Rightarrow>
          s\<lparr>status := ''Current: '' @ (if isXNext s then ''X'' else ''O''),
            curWinLine := None\<rparr>)"

text \<open>A handler followed by the effect pass of the render it causes: the spec's
  \<open>applyMove\<close>, which returns the state with its outcome recomputed.\<close>

definition applyMove :: "state \<Rightarrow> nat \<Rightarrow> mark option \<Rightarrow> state" where
  "applyMove s i markOverride = winnerEffect (handleSquare s i markOverride)"

text \<open>
  The computer's move effect. \<open>aiTurn\<close> is the condition under which it starts its timer;
  \<open>aiMove\<close> is the timer's callback, with the value \<open>r\<close> of \<open>Math.random()\<close>. The effect's
  cleanup clears the timer whenever \<open>mode\<close>, \<open>isXNext\<close>, \<open>winLine\<close> or \<open>squares\<close> change, so
  the callback runs on the state the condition was checked on.
\<close>

definition aiTurn :: "state \<Rightarrow> bool" where
  "aiTurn s = (mode s = Ai \<and> curWinLine s = None \<and> \<not> isXNext s)"

definition aiMove :: "state \<Rightarrow> real \<Rightarrow> state" where
  "aiMove s r =
     (case getRandomEmptyIndex (squares s) r of
        None \<Rightarrow> s
      | Some index \<Rightarrow> handleSquare s index (Some MarkO))"

text \<open>
  The states the application reaches: the first render with its effects run, and from
  there a click on a square (\<open>handleSquare(i)\<close>, no mark supplied), the computer's timer,
  the reset button, a mode button and the theme button, each followed by the winner
  detection effect where the board or the turn changed. The board renders one button for
  each element of \<open>squares\<close> and passes its index; the relation allows a click with any
  array index.
\<close>

inductive reachable :: "state \<Rightarrow> bool" where
  mount: "reachable (winnerEffect initial)"
| click: "reachable s \<Longrightarrow> is_array_index i \<Longrightarrow> reachable (applyMove s i None)"
| computer: "reachable s \<Longrightarrow> aiTurn s \<Longrightarrow> 0 \<le> r \<Longrightarrow> r < 1 \<Longrightarrow> reachable (winnerEffect (aiMove s r))"
| reset: "reachable s \<Longrightarrow> reachable (winnerEffect (handleReset s))"
| modeChange: "reachable s \<Longrightarrow> reachable (winnerEffect (handleModeChange s modeKey))"
| themeToggle: "reachable s \<Longrightarrow> reachable (toggleTheme s)"

text \<open>
  A state of a game against the computer in which it is the computer's turn: the first
  render, the mode button "Player vs AI", and a click on square 0.
\<close>

definition first_click_ai :: state where
  "first_click_ai = applyMove (winnerEffect (handleModeChange (winnerEffect initial) Ai)) 0 None"

section \<open>Notions of the specification\<close>

text \<open>The three cells of the triple \<open>t\<close> all hold the mark \<open>m\<close>.\<close>

definition line_holds :: "cell list \<Rightarrow> nat list \<Rightarrow> mark \<Rightarrow> bool" where
  "line_holds cells t m =
     (nth_js cells (t ! 0) = Mk m \<and> nth_js cells (t ! 1) = Mk m \<and> nth_js cells (t ! 2) = Mk m)"

text \<open>The outcomes of the spec, as values of \<open>calculateWinner\<close>: in progress is \<open>None\<close>.\<close>

definition Win :: "mark \<Rightarrow> nat list \<Rightarrow> result option" where
  "Win m t = Some \<lparr>winner = mark_str m, winLine = t\<rparr>"

definition Draw :: "result option" where
  "Draw = Some \<lparr>winner = ''Draw'', winLine = []\<rparr>"

definition InProgress :: "result option" where
  "InProgress = None"

text \<open>Relabelling the marks of a board.\<close>

fun other :: "mark \<Rightarrow> mark" where
  "other MarkX = MarkO"
| "other MarkO = MarkX"

fun swap_cell :: "cell \<Rightarrow> cell" where
  "swap_cell (Mk m) = Mk (other m)"
| "swap_cell Null = Null"
| "swap_cell Hole = Hole"

definition swap_marks :: "cell list \<Rightarrow> cell list" where
  "swap_marks cells = map swap_cell cells"

text \<open>The number of cells holding a mark.\<close>

definition count_mark :: "cell list \<Rightarrow> mark \<Rightarrow> nat" where
  "count_mark cells m = count_list cells (Mk m)"

text \<open>The turn flag tells which of the two counts holds: the counts are equal when \<open>X\<close> is
  to move, and \<open>X\<close> is one ahead when \<open>O\<close> is.\<close>

definition alternating :: "state \<Rightarrow> bool" where
  "alternating s =
     (count_mark (squares s) MarkX = count_mark (squares s) MarkO + (if isXNext s then 0 else 1))"

section \<open>Facts about \<open>calculateWinner\<close>\<close>

lemma win_cond_iff:
  "(truthy (nth_js s a) \<and> nth_js s a = nth_js s b \<and> nth_js s a = nth_js s c)
   \<longleftrightarrow> (\<exists>m. nth_js s a = Mk m \<and> nth_js s b = Mk m \<and> nth_js s c = Mk m)"
  by (cases "nth_js s a") auto

lemma check_lines_Cons:
  "check_lines sq (t # ls) =
     (if \<exists>m. line_holds sq t m
      then Some \<lparr>winner = cell_str (nth_js sq (t ! 0)), winLine = t\<rparr>
      else check_lines sq ls)"
  unfolding check_lines.simps Let_def win_cond_iff line_holds_def ..

lemma check_lines_find:
  "check_lines sq ls =
     (case find (\<lambda>t. \<exists>m. line_holds sq t m) ls of
        None \<Rightarrow> None
      | Some t \<Rightarrow> Some \<lparr>winner = cell_str (nth_js sq (t ! 0)), winLine = t\<rparr>)"
  by (induction ls) (simp_all only: check_lines_Cons check_lines.simps find.simps option.case if_distrib [of "case_option _ _"] cong: if_cong)

lemma check_lines_first:
  assumes "k < length ls" and "line_holds sq (ls ! k) m"
    and "\<forall>j<k. \<forall>m'. \<not> line_holds sq (ls ! j) m'"
  shows "check_lines sq ls = Win m (ls ! k)"
proof -
  have "find (\<lambda>t. \<exists>m. line_holds sq t m) ls = Some (ls ! k)"
    unfolding find_Some_iff using assms by blast
  moreover have "cell_str (nth_js sq (ls ! k ! 0)) = mark_str m"
    using assms(2) by (simp add: line_holds_def)
  ultimately show ?thesis
    by (simp add: check_lines_find Win_def)
qed

lemma calculateWinner_Some: "check_lines sq lines = Some r \<Longrightarrow> calculateWinner sq = Some r"
  by (simp add: calculateWinner_def)


lemma mark_str_inj: "mark_str m = mark_str m' \<longleftrightarrow> m = m'"
  by (cases m; cases m') simp_all

lemma mark_str_not_Draw: "mark_str m \<noteq> ''Draw''"
  by (cases m) simp_all

lemma Win_not_Draw: "Win m t \<noteq> Draw"
  by (simp add: Win_def Draw_def mark_str_not_Draw)

lemma Win_eq_iff: "Win m t = Win m' t' \<longleftrightarrow> m = m' \<and> t = t'"
  by (simp add: Win_def mark_str_inj)

lemma check_lines_Some_Win:
  assumes "check_lines sq ls = Some r"
  shows "\<exists>k m. k < length ls \<and> line_holds sq (ls ! k) m
           \<and> (\<forall>j<k. \<forall>m'. \<not> line_holds sq (ls ! j) m') \<and> Some r = Win m (ls ! k)"
proof -
  from assms obtain t where f: "find (\<lambda>t. \<exists>m. line_holds sq t m) ls = Some t"
    and r: "r = \<lparr>winner = cell_str (nth_js sq (t ! 0)), winLine = t\<rparr>"
    by (auto simp: check_lines_find split: option.splits)
  from f obtain k where k: "k < length ls" "\<exists>m. line_holds sq (ls ! k) m" "t = ls ! k"
    "\<forall>j<k. \<not> (\<exists>m. line_holds sq (ls ! j) m)"
    unfolding find_Some_iff by blast
  from k(2) obtain m where m: "line_holds sq (ls ! k) m" ..
  then have "cell_str (nth_js sq (t ! 0)) = mark_str m"
    using k(3) by (simp add: line_holds_def)
  with r k(3) have "Some r = Win m (ls ! k)" by (simp add: Win_def)
  with k m show ?thesis by blast
qed

lemma check_lines_None_iff:
  "check_lines sq ls = None \<longleftrightarrow> (\<forall>t \<in> set ls. \<forall>m. \<not> line_holds sq t m)"
proof -
  have "check_lines sq ls = None \<longleftrightarrow> find (\<lambda>t. \<exists>m. line_holds sq t m) ls = None"
    by (simp add: check_lines_find split: option.splits)
  also have "\<dots> \<longleftrightarrow> (\<forall>t \<in> set ls. \<forall>m. \<not> line_holds sq t m)"
    by (auto simp: find_None_iff)
  finally show ?thesis .
qed

lemma calculateWinner_cases:
  "calculateWinner sq =
     (if check_lines sq lines \<noteq> None then check_lines sq lines
      else if Null \<notin> set sq then Draw else InProgress)"
  by (simp add: calculateWinner_def Draw_def InProgress_def split: option.splits)

lemma nth_js_swap: "nth_js (swap_marks sq) i = swap_cell (nth_js sq i)"
  by (simp add: nth_js_def swap_marks_def)

lemma swap_cell_eq_Mk: "swap_cell c = Mk m \<longleftrightarrow> c = Mk (other m)"
  by (cases c; cases m) (auto elim: other.elims)

lemma line_holds_swap: "line_holds (swap_marks sq) t m \<longleftrightarrow> line_holds sq t (other m)"
  by (simp add: line_holds_def nth_js_swap swap_cell_eq_Mk)

lemma other_other: "other (other m) = m"
  by (cases m) simp_all

lemma ex_line_holds_swap: "(\<exists>m. line_holds (swap_marks sq) t m) \<longleftrightarrow> (\<exists>m. line_holds sq t m)"
  unfolding line_holds_swap by (metis other_other)

lemma swap_cell_eq_Null:
  "swap_cell c = Null \<longleftrightarrow> c = Null"
  "Null = swap_cell c \<longleftrightarrow> Null = c"
  by (cases c; simp)+

lemma Null_swap: "Null \<in> set (swap_marks sq) \<longleftrightarrow> Null \<in> set sq"
  by (induction sq) (simp_all add: swap_marks_def swap_cell_eq_Null)

lemma swap_swap: "swap_marks (swap_marks sq) = sq"
proof -
  have "swap_cell (swap_cell c) = c" for c by (cases c) (simp_all add: other_other)
  then show ?thesis by (simp add: swap_marks_def comp_def)
qed

lemma check_lines_swap_None:
  "check_lines (swap_marks sq) ls = None \<longleftrightarrow> check_lines sq ls = None"
  by (simp add: check_lines_None_iff ex_line_holds_swap [simplified] line_holds_swap)
     (metis other_other)

lemma check_lines_swap_Win:
  assumes "check_lines sq ls = Win m t"
  shows "check_lines (swap_marks sq) ls = Win (other m) t"
proof -
  from assms obtain r where r: "check_lines sq ls = Some r" "Some r = Win m t"
    by (simp add: Win_def)
  from check_lines_Some_Win [OF r(1)] obtain k m' where
    k: "k < length ls" "line_holds sq (ls ! k) m'"
       "\<forall>j<k. \<forall>m'. \<not> line_holds sq (ls ! j) m'" "Some r = Win m' (ls ! k)"
    by blast
  from r(2) k(4) have eq: "m' = m" "ls ! k = t" by (simp_all add: Win_eq_iff)
  have "line_holds (swap_marks sq) (ls ! k) (other m)"
    using k(2) eq by (simp add: line_holds_swap other_other)
  moreover have "\<forall>j<k. \<forall>m'. \<not> line_holds (swap_marks sq) (ls ! j) m'"
    using k(3) by (simp add: line_holds_swap)
  ultimately show ?thesis
    using check_lines_first [OF k(1)] eq by blast
qed

lemma calculateWinner_swap_Win:
  assumes "calculateWinner sq = Win m t"
  shows "calculateWinner (swap_marks sq) = Win (other m) t"
proof -
  have "check_lines sq lines = Win m t"
    using assms Win_not_Draw [of m t]
    by (simp add: calculateWinner_cases InProgress_def Win_def split: if_splits)
  then have "check_lines (swap_marks sq) lines = Win (other m) t"
    by (rule check_lines_swap_Win)
  then show ?thesis by (simp add: calculateWinner_cases Win_def)
qed

lemma calculateWinner_swap_Draw:
  assumes "calculateWinner sq = Draw"
  shows "calculateWinner (swap_marks sq) = Draw"
proof -
  have n: "check_lines sq lines = None"
  proof (rule ccontr)
    assume "check_lines sq lines \<noteq> None"
    then obtain r where r: "check_lines sq lines = Some r" by blast
    from check_lines_Some_Win [OF r] obtain m t where "Some r = Win m t" by blast
    moreover from r have "calculateWinner sq = Some r" by (rule calculateWinner_Some)
    ultimately show False using assms Win_not_Draw [of m t] by simp
  qed
  with assms have "Null \<notin> set sq"
    by (simp add: calculateWinner_cases InProgress_def Draw_def split: if_splits)
  with n show ?thesis
    by (simp add: calculateWinner_cases check_lines_swap_None Null_swap)
qed

lemma calculateWinner_swap_InProgress:
  assumes "calculateWinner sq = InProgress"
  shows "calculateWinner (swap_marks sq) = InProgress"
  using assms
  by (simp add: calculateWinner_cases check_lines_swap_None Null_swap InProgress_def Draw_def
      split: if_splits)

section \<open>The outcome of a board\<close>

text \<open>
  Claim C1. \<open>calculateWinner\<close> checks the eight triples in the order
  \<open>[0,1,2], [3,4,5], [6,7,8], [0,3,6], [1,4,7], [2,5,8], [0,4,8], [2,4,6]\<close>. If the
  \<open>k\<close>-th triple holds one mark \<open>m\<close> in its three cells and no earlier triple holds one
  mark, the result is the win of \<open>m\<close> on that triple; and every win it returns is of that
  kind. The board \<open>[X,X,X,_,_,_,_,_,_]\<close> gives the win of \<open>X\<close> on \<open>[0,1,2]\<close>. This holds
  for boards of any length, so for the boards of nine cells.
\<close>

theorem calculateWinner_first_triple:
  "lines = [[0,1,2], [3,4,5], [6,7,8], [0,3,6], [1,4,7], [2,5,8], [0,4,8], [2,4,6]]
   \<and> (\<forall>k m. k < 8 \<and> line_holds cells (lines ! k) m
              \<and> (\<forall>j<k. \<forall>m'. \<not> line_holds cells (lines ! j) m')
          \<longrightarrow> calculateWinner cells = Win m (lines ! k))
   \<and> (\<forall>m t. calculateWinner cells = Win m t
          \<longrightarrow> (\<exists>k<8. t = lines ! k \<and> line_holds cells t m
                     \<and> (\<forall>j<k. \<forall>m'. \<not> line_holds cells (lines ! j) m')))
   \<and> calculateWinner [Mk MarkX, Mk MarkX, Mk MarkX, Null, Null, Null, Null, Null, Null]
         = Win MarkX [0,1,2]"
proof (intro conjI allI impI)
  show "lines = [[0,1,2], [3,4,5], [6,7,8], [0,3,6], [1,4,7], [2,5,8], [0,4,8], [2,4,6]]"
    by (fact lines_def)
next
  fix k m
  assume a: "k < 8 \<and> line_holds cells (lines ! k) m
              \<and> (\<forall>j<k. \<forall>m'. \<not> line_holds cells (lines ! j) m')"
  have len: "length lines = 8" by (simp add: lines_def)
  from a have "check_lines cells lines = Win m (lines ! k)"
    by (intro check_lines_first) (simp_all add: len)
  then show "calculateWinner cells = Win m (lines ! k)"
    by (simp add: calculateWinner_cases Win_def)
next
  fix m t
  assume w: "calculateWinner cells = Win m t"
  have len: "length lines = 8" by (simp add: lines_def)
  have "check_lines cells lines = Win m t"
    using w Win_not_Draw [of m t]
    by (simp add: calculateWinner_cases InProgress_def Win_def split: if_splits)
  then obtain r where r: "check_lines cells lines = Some r" "Some r = Win m t"
    by (simp add: Win_def)
  from check_lines_Some_Win [OF r(1)] obtain k m' where
    k: "k < length lines" "line_holds cells (lines ! k) m'"
       "\<forall>j<k. \<forall>m'. \<not> line_holds cells (lines ! j) m'" "Some r = Win m' (lines ! k)"
    by blast
  from r(2) k(4) have "m' = m" "lines ! k = t" by (simp_all add: Win_eq_iff)
  with k len show "\<exists>k<8. t = lines ! k \<and> line_holds cells t m
                     \<and> (\<forall>j<k. \<forall>m'. \<not> line_holds cells (lines ! j) m')"
    by auto
next
  show "calculateWinner [Mk MarkX, Mk MarkX, Mk MarkX, Null, Null, Null, Null, Null, Null]
         = Win MarkX [0,1,2]"
    by (simp add: calculateWinner_def lines_def nth_js_def Win_def)
qed

theorem calculateWinner_first_triple_witness:
  "line_holds [Null, Null, Null, Mk MarkO, Mk MarkO, Mk MarkO, Mk MarkX, Mk MarkX, Mk MarkX] (lines ! 1) MarkO
   \<and> calculateWinner [Null, Null, Null, Mk MarkO, Mk MarkO, Mk MarkO, Mk MarkX, Mk MarkX, Mk MarkX]
       = Win MarkO [3,4,5]"
proof -
  let ?b = "[Null, Null, Null, Mk MarkO, Mk MarkO, Mk MarkO, Mk MarkX, Mk MarkX, Mk MarkX]"
  have h: "(1::nat) < 8 \<and> line_holds ?b (lines ! 1) MarkO
           \<and> (\<forall>j<1. \<forall>m'. \<not> line_holds ?b (lines ! j) m')"
    by (simp add: line_holds_def lines_def nth_js_def)
  have l: "lines ! 1 = [3,4,5]" by (simp add: lines_def)
  from calculateWinner_first_triple [of ?b] h have "calculateWinner ?b = Win MarkO (lines ! 1)"
    by blast
  with h l show ?thesis by simp
qed

text \<open>
  Claim C8. Let \<open>swap_marks\<close> replace every \<open>X\<close> by \<open>O\<close> and every \<open>O\<close> by \<open>X\<close> and
  leave the other cells alone. A board is in progress exactly when the swapped board is,
  it is a draw exactly when the swapped board is, and it is a win of \<open>m\<close> on the triple
  \<open>t\<close> exactly when the swapped board is a win of the other mark on the same triple.
\<close>

theorem calculateWinner_swap:
  "(calculateWinner cells = InProgress \<longleftrightarrow> calculateWinner (swap_marks cells) = InProgress)
   \<and> (calculateWinner cells = Draw \<longleftrightarrow> calculateWinner (swap_marks cells) = Draw)
   \<and> (calculateWinner cells = Win m t
        \<longleftrightarrow> calculateWinner (swap_marks cells) = Win (other m) t)"
proof (intro conjI iffI)
  show "calculateWinner (swap_marks cells) = InProgress" if "calculateWinner cells = InProgress"
    using that by (rule calculateWinner_swap_InProgress)
  show "calculateWinner cells = InProgress" if "calculateWinner (swap_marks cells) = InProgress"
    using calculateWinner_swap_InProgress [OF that] by (simp only: swap_swap)
  show "calculateWinner (swap_marks cells) = Draw" if "calculateWinner cells = Draw"
    using that by (rule calculateWinner_swap_Draw)
  show "calculateWinner cells = Draw" if "calculateWinner (swap_marks cells) = Draw"
    using calculateWinner_swap_Draw [OF that] by (simp only: swap_swap)
  show "calculateWinner (swap_marks cells) = Win (other m) t" if "calculateWinner cells = Win m t"
    using that by (rule calculateWinner_swap_Win)
  show "calculateWinner cells = Win m t" if "calculateWinner (swap_marks cells) = Win (other m) t"
    using calculateWinner_swap_Win [OF that] by (simp only: swap_swap other_other)
qed

theorem calculateWinner_swap_witness:
  "calculateWinner (swap_marks [Null, Mk MarkO, Mk MarkX, Null, Mk MarkX, Mk MarkO, Mk MarkX, Null, Null])
     = Win MarkO [2,4,6]"
proof -
  let ?b = "[Null, Mk MarkO, Mk MarkX, Null, Mk MarkX, Mk MarkO, Mk MarkX, Null, Null]"
  have "calculateWinner ?b = Win MarkX [2,4,6]"
    by (simp add: calculateWinner_def lines_def nth_js_def Win_def)
  with calculateWinner_swap [of ?b MarkX "[2,4,6]"] show ?thesis by simp
qed

text \<open>
  Claim C5. On a board of nine cells that all hold a mark: if some triple holds one mark,
  \<open>calculateWinner\<close> returns a win and not the draw, because the triples are checked
  before \<open>squares.includes(null)\<close>; if no triple holds one mark, it returns the draw. The
  board \<open>[X,O,X,O,X,O,O,X,O]\<close> is a draw.
\<close>

theorem full_board_win_or_draw:
  assumes "length cells = 9" and "\<forall>c \<in> set cells. \<exists>m. c = Mk m"
  shows "((\<exists>t \<in> set lines. \<exists>m. line_holds cells t m)
            \<longrightarrow> (\<exists>m t. calculateWinner cells = Win m t) \<and> calculateWinner cells \<noteq> Draw)
       \<and> ((\<forall>t \<in> set lines. \<forall>m. \<not> line_holds cells t m) \<longrightarrow> calculateWinner cells = Draw)
       \<and> calculateWinner [Mk MarkX, Mk MarkO, Mk MarkX, Mk MarkO, Mk MarkX, Mk MarkO,
                            Mk MarkO, Mk MarkX, Mk MarkO] = Draw"
proof (intro conjI impI)
  assume "\<exists>t \<in> set lines. \<exists>m. line_holds cells t m"
  then have "check_lines cells lines \<noteq> None" by (simp add: check_lines_None_iff)
  then obtain r where r: "check_lines cells lines = Some r" by blast
  from check_lines_Some_Win [OF r] obtain m t where w: "Some r = Win m t" by blast
  from r have c: "calculateWinner cells = Some r" by (rule calculateWinner_Some)
  with w show "\<exists>m t. calculateWinner cells = Win m t" by metis
  from c w show "calculateWinner cells \<noteq> Draw" using Win_not_Draw [of m t] by simp
next
  assume "\<forall>t \<in> set lines. \<forall>m. \<not> line_holds cells t m"
  then have "check_lines cells lines = None" by (simp add: check_lines_None_iff)
  moreover have "Null \<notin> set cells" using assms(2) by auto
  ultimately show "calculateWinner cells = Draw" by (simp add: calculateWinner_cases)
next
  show "calculateWinner [Mk MarkX, Mk MarkO, Mk MarkX, Mk MarkO, Mk MarkX, Mk MarkO,
                         Mk MarkO, Mk MarkX, Mk MarkO] = Draw"
    by (simp add: calculateWinner_def lines_def nth_js_def Draw_def)
qed

theorem full_board_win_or_draw_witness:
  "calculateWinner [Mk MarkX, Mk MarkO, Mk MarkX, Mk MarkX, Mk MarkO, Mk MarkO,
                    Mk MarkO, Mk MarkX, Mk MarkX] = Draw
   \<and> (\<exists>m t. calculateWinner [Mk MarkX, Mk MarkX, Mk MarkX, Mk MarkO, Mk MarkO, Mk MarkO,
                                  Mk MarkX, Mk MarkO, Mk MarkX] = Win m t)"
proof -
  let ?d = "[Mk MarkX, Mk MarkO, Mk MarkX, Mk MarkX, Mk MarkO, Mk MarkO, Mk MarkO, Mk MarkX, Mk MarkX]"
  let ?w = "[Mk MarkX, Mk MarkX, Mk MarkX, Mk MarkO, Mk MarkO, Mk MarkO, Mk MarkX, Mk MarkO, Mk MarkX]"
  have ld: "length ?d = 9" and lw: "length ?w = 9" by simp_all
  have fd: "\<forall>c \<in> set ?d. \<exists>m. c = Mk m" and fw: "\<forall>c \<in> set ?w. \<exists>m. c = Mk m" by simp_all
  have nd: "\<forall>t \<in> set lines. \<forall>m. \<not> line_holds ?d t m"
    by (simp add: lines_def line_holds_def nth_js_def)
  have "line_holds ?w [0,1,2] MarkX" by (simp add: line_holds_def nth_js_def)
  moreover have "[0,1,2] \<in> set lines" by (simp add: lines_def)
  ultimately have hw: "\<exists>t \<in> set lines. \<exists>m. line_holds ?w t m" by blast
  from full_board_win_or_draw [OF ld fd] nd have "calculateWinner ?d = Draw" by blast
  moreover from full_board_win_or_draw [OF lw fw] hw have "\<exists>m t. calculateWinner ?w = Win m t" by blast
  ultimately show ?thesis by blast
qed

section \<open>The computer's choice of a cell\<close>

lemma nat_floor_lt:
  fixes r :: real
  assumes "0 \<le> r" "r < 1" "0 < n"
  shows "nat \<lfloor>r * real n\<rfloor> < n"
proof -
  have "r * real n < real n" using assms by simp
  then have "\<lfloor>r * real n\<rfloor> < int n" by (simp add: floor_less_iff)
  moreover have "0 \<le> \<lfloor>r * real n\<rfloor>" using assms by simp
  ultimately show ?thesis by linarith
qed

lemma zip_upt_map: "zip xs [0 ..< length xs] = map (\<lambda>i. (xs ! i, i)) [0 ..< length xs]"
  by (rule nth_equalityI) simp_all

lemma empties_filter: "empties sq = filter (\<lambda>i. sq ! i = Null) [0 ..< length sq]"
proof -
  let ?f = "\<lambda>(x, i). if x = Hole then None else if truthy x then None else Some i"
  let ?g = "\<lambda>i. (sq ! i, i)"
  have c: "(?f (?g i) \<noteq> None) = (sq ! i = Null)" for i
    by (cases "sq ! i") simp_all
  have "empties sq = map (the \<circ> ?f) (filter (\<lambda>p. ?f p \<noteq> None) (map ?g [0 ..< length sq]))"
    unfolding empties_def zip_upt_map List.map_filter_def ..
  also have "\<dots> = map (the \<circ> ?f \<circ> ?g) (filter (\<lambda>i. ?f (?g i) \<noteq> None) [0 ..< length sq])"
    by (simp add: filter_map comp_def)
  also have "\<dots> = map (the \<circ> ?f \<circ> ?g) (filter (\<lambda>i. sq ! i = Null) [0 ..< length sq])"
    by (simp only: c)
  also have "\<dots> = filter (\<lambda>i. sq ! i = Null) [0 ..< length sq]"
    by (rule map_idI) simp
  finally show ?thesis .
qed

lemma set_empties: "set (empties sq) = {i. i < length sq \<and> sq ! i = Null}"
  by (auto simp: empties_filter)

lemma empties_Nil_iff: "empties sq = [] \<longleftrightarrow> Null \<notin> set sq"
  by (auto simp: empties_filter filter_empty_conv in_set_conv_nth)

lemma getRandomEmptyIndex_None_iff: "getRandomEmptyIndex sq r = None \<longleftrightarrow> Null \<notin> set sq"
  by (simp add: getRandomEmptyIndex_def Let_def empties_Nil_iff)

lemma getRandomEmptyIndex_Some:
  assumes "0 \<le> r" "r < 1" "getRandomEmptyIndex sq r = Some idx"
  shows "idx < length sq \<and> sq ! idx = Null"
proof -
  let ?es = "empties sq"
  from assms(3) have ne: "0 < length ?es" and idx: "idx = ?es ! nat \<lfloor>r * real (length ?es)\<rfloor>"
    by (auto simp: getRandomEmptyIndex_def Let_def split: if_splits)
  from nat_floor_lt [OF assms(1,2) ne] have "idx \<in> set ?es"
    unfolding idx by (rule nth_mem)
  then show ?thesis by (simp add: set_empties)
qed

text \<open>
  Claim C6. On a board of nine cells, with \<open>Math.random()\<close> giving any \<open>r\<close> with
  \<open>0 \<le> r < 1\<close>: \<open>getRandomEmptyIndex\<close> returns \<open>null\<close> exactly when no cell is empty; an
  index it returns is below 9 and its cell is empty; and when \<open>j\<close> is the only empty cell it
  returns \<open>j\<close>, as it returns 5 on a board whose only empty cell is cell 5.
\<close>

theorem getRandomEmptyIndex_sound:
  assumes "length cells = 9" and "0 \<le> r" and "r < 1"
  shows "(getRandomEmptyIndex cells r = None \<longleftrightarrow> Null \<notin> set cells)
       \<and> (\<forall>idx. getRandomEmptyIndex cells r = Some idx \<longrightarrow> idx < 9 \<and> cells ! idx = Null)
       \<and> (\<forall>j. j < 9 \<and> cells ! j = Null \<and> (\<forall>k<9. k \<noteq> j \<longrightarrow> cells ! k \<noteq> Null)
              \<longrightarrow> getRandomEmptyIndex cells r = Some j)"
proof (intro conjI allI impI)
  show "getRandomEmptyIndex cells r = None \<longleftrightarrow> Null \<notin> set cells"
    by (rule getRandomEmptyIndex_None_iff)
next
  fix idx assume "getRandomEmptyIndex cells r = Some idx"
  from getRandomEmptyIndex_Some [OF assms(2,3) this] assms(1)
  have both: "idx < 9 \<and> cells ! idx = Null" by simp
  from both show "idx < 9" ..
  from both show "cells ! idx = Null" ..
next
  fix j assume j: "j < 9 \<and> cells ! j = Null \<and> (\<forall>k<9. k \<noteq> j \<longrightarrow> cells ! k \<noteq> Null)"
  then have "Null \<in> set cells" using assms(1) by (metis nth_mem)
  then obtain idx where idx: "getRandomEmptyIndex cells r = Some idx"
    using getRandomEmptyIndex_None_iff [of cells r] by (cases "getRandomEmptyIndex cells r") simp_all
  from getRandomEmptyIndex_Some [OF assms(2,3) idx] assms(1) j have "idx = j" by auto
  with idx show "getRandomEmptyIndex cells r = Some j" by simp
qed

theorem getRandomEmptyIndex_sound_witness:
  "getRandomEmptyIndex
     [Mk MarkX, Mk MarkX, Mk MarkO, Mk MarkO, Mk MarkX, Null, Mk MarkX, Mk MarkO, Mk MarkO] (1/2)
   = Some 5"
proof -
  let ?b = "[Mk MarkX, Mk MarkX, Mk MarkO, Mk MarkO, Mk MarkX, Null, Mk MarkX, Mk MarkO, Mk MarkO]"
  have l: "length ?b = 9" by simp
  have r: "(0::real) \<le> 1/2" "(1/2::real) < 1" by simp_all
  have k: "\<forall>k<9. k \<noteq> 5 \<longrightarrow> ?b ! k \<noteq> Null"
  proof (intro allI impI)
    fix k :: nat assume "k < 9" "k \<noteq> 5"
    then have "k \<in> {0,1,2,3,4,6,7,8}" by auto
    then show "?b ! k \<noteq> Null" by auto
  qed
  have h: "(5::nat) < 9 \<and> ?b ! 5 = Null \<and> (\<forall>k<9. k \<noteq> 5 \<longrightarrow> ?b ! k \<noteq> Null)"
    using k by simp
  from getRandomEmptyIndex_sound [OF l r] h show ?thesis by blast
qed

section \<open>The handlers on concrete states\<close>

lemma calculateWinner_empty: "calculateWinner (replicate 9 Null) = None"
  by (simp add: calculateWinner_def lines_def nth_js_def numeral_eq_Suc)

lemma winnerEffect_initial:
  "winnerEffect initial = \<lparr>theme = ''light'', mode = Pvp, squares = replicate 9 Null,
      squaresProps = Map.empty, step = 0,
      isXNext = True, status = ''Current: X'', curWinLine = None\<rparr>"
  by (simp add: winnerEffect_def initial_def calculateWinner_empty)

lemma winnerEffect_fields:
  "squares (winnerEffect s) = squares s" "squaresProps (winnerEffect s) = squaresProps s"
  "isXNext (winnerEffect s) = isXNext s"
  "mode (winnerEffect s) = mode s" "step (winnerEffect s) = step s" "theme (winnerEffect s) = theme s"
  "curWinLine (winnerEffect s) = map_option winLine (calculateWinner (squares s))"
  by (simp_all add: winnerEffect_def split: option.splits)

lemma calculateWinner_one_mark:
  "calculateWinner [Mk MarkX, Null, Null, Null, Null, Null, Null, Null, Null] = None"
  "calculateWinner [Null, Null, Null, Null, Mk MarkX, Null, Null, Null, Null] = None"
  by (simp_all add: calculateWinner_def lines_def nth_js_def)

lemma nine_Null: "replicate 9 Null = [Null, Null, Null, Null, Null, Null, Null, Null, Null]"
  by (simp add: numeral_eq_Suc)

lemma handleModeChange_eq:
  "handleModeChange s modeKey = \<lparr>theme = theme s, mode = modeKey, squares = replicate 9 Null,
      squaresProps = Map.empty,
      step = 0, isXNext = True, status = ''Current: X'', curWinLine = None\<rparr>"
  by (simp add: handleModeChange_def handleReset_def)

lemma winnerEffect_fresh:
  "winnerEffect \<lparr>theme = th, mode = mo, squares = replicate 9 Null, squaresProps = Map.empty,
      step = 0, isXNext = True, status = ''Current: X'', curWinLine = None\<rparr>
   = \<lparr>theme = th, mode = mo, squares = replicate 9 Null, squaresProps = Map.empty,
      step = 0, isXNext = True, status = ''Current: X'', curWinLine = None\<rparr>"
  by (simp add: winnerEffect_def calculateWinner_empty)

lemma read_js_index: "is_array_index i \<Longrightarrow> read_js elems props i = nth_js elems i"
  by (simp add: read_js_def)

lemma handleSquare_returns_early:
  assumes "curWinLine s \<noteq> None \<or> truthy (read_js (squares s) (squaresProps s) i)
           \<or> (mode s = Ai \<and> markOverride = None \<and> \<not> isXNext s)"
  shows "handleSquare s i markOverride = s"
  using assms by (auto simp: handleSquare_def Let_def)

lemma handleSquare_stores:
  assumes "curWinLine s = None" and "\<not> truthy (read_js (squares s) (squaresProps s) i)"
    and "\<not> (mode s = Ai \<and> markOverride = None \<and> \<not> isXNext s)"
    and "mk = (case markOverride of Some m \<Rightarrow> m | None \<Rightarrow> if isXNext s then MarkX else MarkO)"
  shows "handleSquare s i markOverride =
           (if is_array_index i
            then s\<lparr>squares := assign (squares s) i (Mk mk), squaresProps := Map.empty,
                   step := step s + 1, isXNext := \<not> isXNext s\<rparr>
            else s\<lparr>squaresProps := [i \<mapsto> Mk mk], step := step s + 1, isXNext := \<not> isXNext s\<rparr>)"
  using assms by (auto simp: handleSquare_def slice_js_def store_js_def Let_def)

lemma first_click_eq:
  assumes "is_array_index i"
  shows "handleSquare \<lparr>theme = th, mode = mo, squares = replicate 9 Null, squaresProps = Map.empty,
      step = 0, isXNext = True, status = ''Current: X'', curWinLine = None\<rparr> i None
   = \<lparr>theme = th, mode = mo, squares = assign (replicate 9 Null) i (Mk MarkX),
      squaresProps = Map.empty,
      step = 1, isXNext = False, status = ''Current: X'', curWinLine = None\<rparr>"
  using assms
  by (simp add: handleSquare_def read_js_def nth_js_def slice_js_def store_js_def)

lemma first_click_ai_eq:
  "first_click_ai = \<lparr>theme = ''light'', mode = Ai,
      squares = [Mk MarkX, Null, Null, Null, Null, Null, Null, Null, Null],
      squaresProps = Map.empty,
      step = 1, isXNext = False, status = ''Current: O'', curWinLine = None\<rparr>"
proof -
  have a: "assign (replicate 9 Null) 0 (Mk MarkX)
           = [Mk MarkX, Null, Null, Null, Null, Null, Null, Null, Null]"
    by (simp add: assign_def nine_Null)
  have i: "is_array_index 0" by (simp add: is_array_index_def)
  have "first_click_ai = winnerEffect \<lparr>theme = ''light'', mode = Ai,
      squares = [Mk MarkX, Null, Null, Null, Null, Null, Null, Null, Null],
      squaresProps = Map.empty,
      step = 1, isXNext = False, status = ''Current: X'', curWinLine = None\<rparr>"
    unfolding first_click_ai_def applyMove_def winnerEffect_initial handleModeChange_eq
      winnerEffect_fresh first_click_eq [OF i] a
    by simp
  also have "\<dots> = \<lparr>theme = ''light'', mode = Ai,
      squares = [Mk MarkX, Null, Null, Null, Null, Null, Null, Null, Null],
      squaresProps = Map.empty,
      step = 1, isXNext = False, status = ''Current: O'', curWinLine = None\<rparr>"
    by (simp add: winnerEffect_def calculateWinner_one_mark)
  finally show ?thesis .
qed

lemma centre_click_eq:
  "applyMove (winnerEffect initial) 4 None = \<lparr>theme = ''light'', mode = Pvp,
      squares = [Null, Null, Null, Null, Mk MarkX, Null, Null, Null, Null],
      squaresProps = Map.empty,
      step = 1, isXNext = False, status = ''Current: O'', curWinLine = None\<rparr>"
proof -
  have a: "assign (replicate 9 Null) 4 (Mk MarkX)
           = [Null, Null, Null, Null, Mk MarkX, Null, Null, Null, Null]"
    by (simp add: assign_def nine_Null)
  have i: "is_array_index 4" by (simp add: is_array_index_def)
  have "applyMove (winnerEffect initial) 4 None = winnerEffect \<lparr>theme = ''light'', mode = Pvp,
      squares = [Null, Null, Null, Null, Mk MarkX, Null, Null, Null, Null],
      squaresProps = Map.empty,
      step = 1, isXNext = False, status = ''Current: X'', curWinLine = None\<rparr>"
    unfolding applyMove_def winnerEffect_initial first_click_eq [OF i] a
    by simp
  also have "\<dots> = \<lparr>theme = ''light'', mode = Pvp,
      squares = [Null, Null, Null, Null, Mk MarkX, Null, Null, Null, Null],
      squaresProps = Map.empty,
      step = 1, isXNext = False, status = ''Current: O'', curWinLine = None\<rparr>"
    by (simp add: winnerEffect_def calculateWinner_one_mark)
  finally show ?thesis .
qed

lemma assign_in_range: "i < length sq \<Longrightarrow> assign sq i v = sq[i := v]"
  by (simp add: assign_def)

lemma nth_js_assign: "nth_js (assign sq i v) i = v"
  by (simp add: nth_js_def assign_def nth_append)

section \<open>\<open>handleSquare\<close>, \<open>handleReset\<close> and \<open>handleModeChange\<close>\<close>

text \<open>
  Claim C2. \<open>handleSquare\<close> returns before any setter, so that the whole state stays as
  it is, whenever \<open>winLine\<close> is set (the outcome is a win or a draw), or the target cell
  holds a mark, or the mode is against the computer, no mark is supplied and it is the
  computer's turn. On a state whose \<open>status\<close> and \<open>winLine\<close> are up to date, the effect pass
  after it changes nothing either. The function has no failing branch.
\<close>

theorem handleSquare_rejects:
  assumes "curWinLine s \<noteq> None \<or> truthy (read_js (squares s) (squaresProps s) i)
           \<or> (mode s = Ai \<and> markOverride = None \<and> \<not> isXNext s)"
  shows "handleSquare s i markOverride = s
         \<and> (winnerEffect s = s \<longrightarrow> applyMove s i markOverride = s)"
  using assms by (auto simp: handleSquare_def applyMove_def Let_def)

theorem handleSquare_rejects_witness:
  "handleSquare (applyMove (winnerEffect initial) 4 None) 4 None = applyMove (winnerEffect initial) 4 None
   \<and> handleSquare first_click_ai 3 None = first_click_ai"
proof -
  let ?s = "applyMove (winnerEffect initial) 4 None"
  have a: "truthy (read_js (squares ?s) (squaresProps ?s) 4)"
    by (simp add: centre_click_eq read_js_def is_array_index_def nth_js_def)
  have b: "mode first_click_ai = Ai \<and> (None :: mark option) = None \<and> \<not> isXNext first_click_ai"
    by (simp add: first_click_ai_eq)
  from a have "handleSquare ?s 4 None = ?s"
    using handleSquare_rejects [of ?s 4 None] by blast
  moreover from b have "handleSquare first_click_ai 3 None = first_click_ai"
    using handleSquare_rejects [of first_click_ai 3 None] by blast
  ultimately show ?thesis ..
qed

text \<open>
  Claim C4. On a state in progress with nine cells, for an index below 9 whose cell holds
  no mark, outside the computer's turn guard: the move writes the mark (the supplied one,
  or else the one whose turn it is) into the cell, leaves every other cell and the length
  as they are, flips \<open>isXNext\<close>, and the effect pass stores the outcome that
  \<open>calculateWinner\<close> gives on the new cells. On the empty board a click on square 4 gives
  \<open>X\<close> in cell 4, \<open>O\<close> to move, and a game in progress.
\<close>

theorem applyMove_accepts:
  assumes "curWinLine s = None" and "length (squares s) = 9" and "i < 9"
    and "\<not> truthy (squares s ! i)"
    and "\<not> (mode s = Ai \<and> markOverride = None \<and> \<not> isXNext s)"
    and "mk = (case markOverride of Some m \<Rightarrow> m | None \<Rightarrow> if isXNext s then MarkX else MarkO)"
  shows "squares (applyMove s i markOverride) = (squares s)[i := Mk mk]
       \<and> squares (applyMove s i markOverride) ! i = Mk mk
       \<and> (\<forall>j. j \<noteq> i \<longrightarrow> squares (applyMove s i markOverride) ! j = squares s ! j)
       \<and> length (squares (applyMove s i markOverride)) = 9
       \<and> isXNext (applyMove s i markOverride) = (\<not> isXNext s)
       \<and> curWinLine (applyMove s i markOverride)
           = map_option winLine (calculateWinner (squares (applyMove s i markOverride)))
       \<and> squares (applyMove (winnerEffect initial) 4 None) ! 4 = Mk MarkX
       \<and> \<not> isXNext (applyMove (winnerEffect initial) 4 None)
       \<and> calculateWinner (squares (applyMove (winnerEffect initial) 4 None)) = InProgress
       \<and> curWinLine (applyMove (winnerEffect initial) 4 None) = None"
proof -
  have ix: "is_array_index i" using assms(3) by (simp add: is_array_index_def)
  have rd: "\<not> truthy (read_js (squares s) (squaresProps s) i)"
    using assms(2,3,4) by (simp add: read_js_index [OF ix] nth_js_def)
  have h: "handleSquare s i markOverride
            = s\<lparr>squares := (squares s)[i := Mk mk], squaresProps := Map.empty,
                 step := step s + 1, isXNext := \<not> isXNext s\<rparr>"
    using handleSquare_stores [OF assms(1) rd assms(5,6)] ix assms(2,3)
    by (simp add: assign_in_range)
  have sq: "squares (applyMove s i markOverride) = (squares s)[i := Mk mk]"
    by (simp add: applyMove_def winnerEffect_fields h)
  have x: "isXNext (applyMove s i markOverride) = (\<not> isXNext s)"
    by (simp add: applyMove_def winnerEffect_fields h)
  have w: "curWinLine (applyMove s i markOverride)
           = map_option winLine (calculateWinner (squares (applyMove s i markOverride)))"
    by (simp add: applyMove_def winnerEffect_fields)
  have e: "squares (applyMove (winnerEffect initial) 4 None) ! 4 = Mk MarkX
       \<and> \<not> isXNext (applyMove (winnerEffect initial) 4 None)
       \<and> calculateWinner (squares (applyMove (winnerEffect initial) 4 None)) = InProgress
       \<and> curWinLine (applyMove (winnerEffect initial) 4 None) = None"
    by (simp add: centre_click_eq calculateWinner_one_mark InProgress_def)
  from sq x w e assms(2,3) show ?thesis by simp
qed

theorem applyMove_accepts_witness:
  "squares (applyMove first_click_ai 8 (Some MarkO))
     = [Mk MarkX, Null, Null, Null, Null, Null, Null, Null, Mk MarkO]
   \<and> isXNext (applyMove first_click_ai 8 (Some MarkO))"
proof -
  have "squares (applyMove first_click_ai 8 (Some MarkO)) = (squares first_click_ai)[8 := Mk MarkO]
        \<and> isXNext (applyMove first_click_ai 8 (Some MarkO)) = (\<not> isXNext first_click_ai)"
    using applyMove_accepts [of first_click_ai 8 "Some MarkO" MarkO]
    by (simp add: first_click_ai_eq)
  then show ?thesis by (simp add: first_click_ai_eq)
qed

text \<open>
  Claim C7. From any state, \<open>handleReset\<close> gives nine empty cells, \<open>X\<close> to move, no
  outcome, and the mode it had; \<open>handleModeChange\<close> is \<open>handleReset\<close> with the new mode, so
  the cells, step, turn, status and outcome of its result do not depend on the state before.
  Only the colour theme, which is not game state, is kept. The effect pass leaves both
  results as they are.
\<close>

theorem handleReset_fresh:
  "handleReset s = \<lparr>theme = theme s, mode = mode s, squares = replicate 9 Null,
                     squaresProps = Map.empty, step = 0,
                     isXNext = True, status = ''Current: X'', curWinLine = None\<rparr>
   \<and> handleModeChange s modeKey = \<lparr>theme = theme s, mode = modeKey, squares = replicate 9 Null,
                     squaresProps = Map.empty,
                     step = 0, isXNext = True, status = ''Current: X'', curWinLine = None\<rparr>
   \<and> handleModeChange s modeKey = handleReset (s\<lparr>mode := modeKey\<rparr>)
   \<and> replicate 9 Null = [Null, Null, Null, Null, Null, Null, Null, Null, Null]
   \<and> calculateWinner (squares (handleReset s)) = InProgress
   \<and> winnerEffect (handleReset s) = handleReset s
   \<and> winnerEffect (handleModeChange s modeKey) = handleModeChange s modeKey"
  by (simp add: handleReset_def handleModeChange_def winnerEffect_def calculateWinner_empty
      InProgress_def nine_Null [symmetric])

theorem handleReset_fresh_witness:
  "handleModeChange first_click_ai Pvp = winnerEffect initial"
proof -
  from handleReset_fresh [of first_click_ai Pvp]
  have "handleModeChange first_click_ai Pvp
          = \<lparr>theme = theme first_click_ai, mode = Pvp, squares = replicate 9 Null,
              squaresProps = Map.empty, step = 0,
              isXNext = True, status = ''Current: X'', curWinLine = None\<rparr>"
    by blast
  also have "theme first_click_ai = ''light''" by (simp add: first_click_ai_eq)
  finally show ?thesis by (simp only: winnerEffect_initial)
qed

text \<open>
  Claim C9. \<open>handleSquare\<close> does not compare a supplied mark with the turn or the mode: on
  a state in progress, for a target cell that holds no mark, a call with the mark \<open>m\<close> writes
  \<open>m\<close>, whatever \<open>isXNext\<close> and \<open>mode\<close> are: at an array index into the elements, at any
  other number as a property of the array, and \<open>squares[i]\<close> reads \<open>m\<close> afterwards. On the
  fresh state, which is in the mode of two players with \<open>X\<close> to move, one call with \<open>O\<close>
  gives a board with one \<open>O\<close> and no \<open>X\<close>.
\<close>

theorem handleSquare_explicit_mark:
  assumes "curWinLine s = None" and "\<not> truthy (read_js (squares s) (squaresProps s) i)"
  shows "handleSquare s i (Some m)
           = (if is_array_index i
              then s\<lparr>squares := assign (squares s) i (Mk m), squaresProps := Map.empty,
                     step := step s + 1, isXNext := \<not> isXNext s\<rparr>
              else s\<lparr>squaresProps := [i \<mapsto> Mk m], step := step s + 1, isXNext := \<not> isXNext s\<rparr>)
       \<and> read_js (squares (handleSquare s i (Some m))) (squaresProps (handleSquare s i (Some m))) i
           = Mk m
       \<and> mode (winnerEffect initial) = Pvp \<and> isXNext (winnerEffect initial)
       \<and> count_mark (squares (handleSquare (winnerEffect initial) 0 (Some MarkO))) MarkO = 1
       \<and> count_mark (squares (handleSquare (winnerEffect initial) 0 (Some MarkO))) MarkX = 0"
proof -
  have h: "handleSquare s i (Some m)
           = (if is_array_index i
              then s\<lparr>squares := assign (squares s) i (Mk m), squaresProps := Map.empty,
                     step := step s + 1, isXNext := \<not> isXNext s\<rparr>
              else s\<lparr>squaresProps := [i \<mapsto> Mk m], step := step s + 1, isXNext := \<not> isXNext s\<rparr>)"
    using handleSquare_stores [OF assms, of "Some m" m] by simp
  have n': "read_js (squares (handleSquare s i (Some m))) (squaresProps (handleSquare s i (Some m))) i
             = Mk m"
    by (simp add: h read_js_def nth_js_assign)
  have e: "squares (handleSquare (winnerEffect initial) 0 (Some MarkO))
            = [Mk MarkO, Null, Null, Null, Null, Null, Null, Null, Null]"
    by (simp add: winnerEffect_initial handleSquare_def read_js_def is_array_index_def nth_js_def
        slice_js_def store_js_def assign_def nine_Null)
  have c: "count_mark (squares (handleSquare (winnerEffect initial) 0 (Some MarkO))) MarkO = 1
       \<and> count_mark (squares (handleSquare (winnerEffect initial) 0 (Some MarkO))) MarkX = 0"
    unfolding e by (simp add: count_mark_def)
  have f: "mode (winnerEffect initial) = Pvp \<and> isXNext (winnerEffect initial)"
    by (simp add: winnerEffect_initial)
  from h n' c f show ?thesis by blast
qed

theorem handleSquare_explicit_mark_witness:
  "handleSquare first_click_ai 0 (Some MarkO) = first_click_ai
   \<and> squares (handleSquare (applyMove (winnerEffect initial) 4 None) 0 (Some MarkX))
       = [Mk MarkX, Null, Null, Null, Mk MarkX, Null, Null, Null, Null]"
proof -
  let ?s = "applyMove (winnerEffect initial) 4 None"
  have a: "curWinLine ?s = None" and b: "\<not> truthy (read_js (squares ?s) (squaresProps ?s) 0)"
    by (simp_all add: centre_click_eq read_js_def is_array_index_def nth_js_def)
  have i: "is_array_index 0" by (simp add: is_array_index_def)
  from handleSquare_explicit_mark [OF a b, of MarkX] i
  have "squares (handleSquare ?s 0 (Some MarkX)) = assign (squares ?s) 0 (Mk MarkX)"
    by simp
  moreover have "handleSquare first_click_ai 0 (Some MarkO) = first_click_ai"
    by (simp add: first_click_ai_eq handleSquare_def read_js_def is_array_index_def nth_js_def)
  ultimately show ?thesis by (simp add: centre_click_eq assign_def)
qed

text \<open>
  Claim C10, as stated, fails at two places. In a game against the computer, on the
  computer's turn, a call without a mark and with the index 9 is a silent no-op, like
  every call without a mark there; the state \<open>first_click_ai\<close> is in progress and has nine
  cells. And on the fresh state a call with the index \<open>2^32 - 1\<close>, which is not an array
  index, is accepted but writes no cell: the mark becomes a property of the array object,
  and the array keeps its nine empty cells.
\<close>

theorem handleSquare_out_of_range_counterexample:
  "curWinLine first_click_ai = None \<and> length (squares first_click_ai) = 9
   \<and> handleSquare first_click_ai 9 None = first_click_ai
   \<and> squares (handleSquare first_click_ai 9 None)
       = [Mk MarkX, Null, Null, Null, Null, Null, Null, Null, Null]
   \<and> isXNext (handleSquare first_click_ai 9 None) = isXNext first_click_ai
   \<and> curWinLine (winnerEffect initial) = None
   \<and> squares (handleSquare (winnerEffect initial) 4294967295 None)
       = [Null, Null, Null, Null, Null, Null, Null, Null, Null]
   \<and> squaresProps (handleSquare (winnerEffect initial) 4294967295 None)
       = [4294967295 \<mapsto> Mk MarkX]"
  by (simp add: first_click_ai_eq winnerEffect_initial nine_Null handleSquare_def read_js_def
      is_array_index_def nth_js_def slice_js_def store_js_def)

text \<open>
  Claim C10, amended. On a state in progress with nine cells and an index \<open>i \<ge> 9\<close>: in a
  game against the computer, on the computer's turn and without a supplied mark, the call
  is a no-op. Otherwise, when \<open>i\<close> is an array index (\<open>i \<le> 2^32 - 2\<close>), the call is not
  rejected: position \<open>i\<close> reads as \<open>undefined\<close>, the mark is written at position \<open>i\<close>, the
  array grows to \<open>i + 1\<close> entries with holes at the positions from 9 to \<open>i - 1\<close>, and
  \<open>isXNext\<close> flips. Otherwise \<open>i\<close> is not an array index: if the array already has a mark
  as its property \<open>i\<close> the call is a no-op; if not, the call is not rejected, the mark is
  stored as the property \<open>i\<close> of the array, whose nine cells and length stay as they are,
  \<open>squares[i]\<close> reads the mark, and \<open>isXNext\<close> flips. No error is signalled in any case.
\<close>

theorem handleSquare_out_of_range:
  assumes "curWinLine s = None" and "length (squares s) = 9" and "9 \<le> i"
    and "mk = (case markOverride of Some m \<Rightarrow> m | None \<Rightarrow> if isXNext s then MarkX else MarkO)"
  shows "if mode s = Ai \<and> markOverride = None \<and> \<not> isXNext s
         then handleSquare s i markOverride = s
         else if is_array_index i
         then nth_js (squares s) i = Hole
            \<and> handleSquare s i markOverride \<noteq> s
            \<and> squares (handleSquare s i markOverride) = squares s @ replicate (i - 9) Hole @ [Mk mk]
            \<and> squaresProps (handleSquare s i markOverride) = Map.empty
            \<and> length (squares (handleSquare s i markOverride)) = i + 1
            \<and> nth_js (squares (handleSquare s i markOverride)) i = Mk mk
            \<and> isXNext (handleSquare s i markOverride) = (\<not> isXNext s)
         else if truthy (case squaresProps s i of Some v \<Rightarrow> v | None \<Rightarrow> Hole)
         then handleSquare s i markOverride = s
         else handleSquare s i markOverride \<noteq> s
            \<and> squares (handleSquare s i markOverride) = squares s
            \<and> length (squares (handleSquare s i markOverride)) = 9
            \<and> squaresProps (handleSquare s i markOverride) = [i \<mapsto> Mk mk]
            \<and> read_js (squares (handleSquare s i markOverride))
                 (squaresProps (handleSquare s i markOverride)) i = Mk mk
            \<and> isXNext (handleSquare s i markOverride) = (\<not> isXNext s)"
proof (cases "mode s = Ai \<and> markOverride = None \<and> \<not> isXNext s")
  case True
  then have no_op: "handleSquare s i markOverride = s" by (simp add: handleSquare_returns_early)
  show ?thesis unfolding if_P [OF True] by (fact no_op)
next
  case guard: False
  show ?thesis
  proof (cases "is_array_index i")
    case True
    have r: "nth_js (squares s) i = Hole"
      using assms(2,3) by (simp add: nth_js_def)
    then have rd: "\<not> truthy (read_js (squares s) (squaresProps s) i)"
      by (simp add: read_js_index [OF True])
    have h: "handleSquare s i markOverride
              = s\<lparr>squares := squares s @ replicate (i - 9) Hole @ [Mk mk], squaresProps := Map.empty,
                   step := step s + 1, isXNext := \<not> isXNext s\<rparr>"
      using handleSquare_stores [OF assms(1) rd guard assms(4)] True assms(2,3)
      by (simp add: assign_def)
    have x: "isXNext (handleSquare s i markOverride) = (\<not> isXNext s)"
      by (simp add: h)
    then have ne: "handleSquare s i markOverride \<noteq> s" by auto
    have sq: "squares (handleSquare s i markOverride) = squares s @ replicate (i - 9) Hole @ [Mk mk]"
      by (simp add: h)
    have pr: "squaresProps (handleSquare s i markOverride) = Map.empty"
      by (simp add: h)
    have len: "length (squares (handleSquare s i markOverride)) = i + 1"
      using assms(2,3) by (simp add: sq)
    have at: "nth_js (squares (handleSquare s i markOverride)) i = Mk mk"
      using assms(2,3) by (simp add: sq nth_js_def nth_append)
    from r ne sq pr len at x
    have concl: "nth_js (squares s) i = Hole
            \<and> handleSquare s i markOverride \<noteq> s
            \<and> squares (handleSquare s i markOverride) = squares s @ replicate (i - 9) Hole @ [Mk mk]
            \<and> squaresProps (handleSquare s i markOverride) = Map.empty
            \<and> length (squares (handleSquare s i markOverride)) = i + 1
            \<and> nth_js (squares (handleSquare s i markOverride)) i = Mk mk
            \<and> isXNext (handleSquare s i markOverride) = (\<not> isXNext s)"
      by blast
    show ?thesis unfolding if_not_P [OF guard] if_P [OF True] by (fact concl)
  next
    case noindex: False
    have rd: "read_js (squares s) (squaresProps s) i
               = (case squaresProps s i of Some v \<Rightarrow> v | None \<Rightarrow> Hole)"
      using noindex by (simp add: read_js_def)
    show ?thesis
    proof (cases "truthy (case squaresProps s i of Some v \<Rightarrow> v | None \<Rightarrow> Hole)")
      case True
      then have "handleSquare s i markOverride = s"
        by (simp add: handleSquare_returns_early rd)
      then show ?thesis unfolding if_not_P [OF guard] if_not_P [OF noindex] if_P [OF True] .
    next
      case free: False
      then have rd': "\<not> truthy (read_js (squares s) (squaresProps s) i)"
        by (simp add: rd)
      have h: "handleSquare s i markOverride
                = s\<lparr>squaresProps := [i \<mapsto> Mk mk], step := step s + 1, isXNext := \<not> isXNext s\<rparr>"
        using handleSquare_stores [OF assms(1) rd' guard assms(4)] noindex by simp
      have x: "isXNext (handleSquare s i markOverride) = (\<not> isXNext s)"
        by (simp add: h)
      then have ne: "handleSquare s i markOverride \<noteq> s" by auto
      have sq: "squares (handleSquare s i markOverride) = squares s"
        by (simp add: h)
      have len: "length (squares (handleSquare s i markOverride)) = 9"
        using assms(2) by (simp add: sq)
      have pr: "squaresProps (handleSquare s i markOverride) = [i \<mapsto> Mk mk]"
        by (simp add: h)
      have at: "read_js (squares (handleSquare s i markOverride))
                 (squaresProps (handleSquare s i markOverride)) i = Mk mk"
        using noindex by (simp add: pr read_js_def)
      from ne sq len pr at x
      have concl: "handleSquare s i markOverride \<noteq> s
            \<and> squares (handleSquare s i markOverride) = squares s
            \<and> length (squares (handleSquare s i markOverride)) = 9
            \<and> squaresProps (handleSquare s i markOverride) = [i \<mapsto> Mk mk]
            \<and> read_js (squares (handleSquare s i markOverride))
                 (squaresProps (handleSquare s i markOverride)) i = Mk mk
            \<and> isXNext (handleSquare s i markOverride) = (\<not> isXNext s)"
        by blast
      show ?thesis
        unfolding if_not_P [OF guard] if_not_P [OF noindex] if_not_P [OF free] by (fact concl)
    qed
  qed
qed

theorem handleSquare_out_of_range_witness:
  "squares (handleSquare (winnerEffect initial) 11 None)
     = [Null, Null, Null, Null, Null, Null, Null, Null, Null, Hole, Hole, Mk MarkX]
   \<and> \<not> isXNext (handleSquare (winnerEffect initial) 11 None)
   \<and> length (squares (handleSquare (winnerEffect initial) 4294967296 None)) = 9
   \<and> squaresProps (handleSquare (winnerEffect initial) 4294967296 None) = [4294967296 \<mapsto> Mk MarkX]
   \<and> \<not> isXNext (handleSquare (winnerEffect initial) 4294967296 None)"
proof -
  let ?s = "winnerEffect initial"
  have a: "curWinLine ?s = None" and b: "length (squares ?s) = 9"
    and d: "MarkX = (case (None :: mark option) of Some m \<Rightarrow> m
                      | None \<Rightarrow> if isXNext ?s then MarkX else MarkO)"
    and e: "\<not> (mode ?s = Ai \<and> (None :: mark option) = None \<and> \<not> isXNext ?s)"
    and p: "\<not> truthy (case squaresProps ?s 4294967296 of Some v \<Rightarrow> v | None \<Rightarrow> Hole)"
    by (simp_all add: winnerEffect_initial)
  have c: "(9::nat) \<le> 11" and c': "(9::nat) \<le> 4294967296" by simp_all
  have i: "is_array_index 11" and i': "\<not> is_array_index 4294967296"
    by (simp_all add: is_array_index_def)
  from handleSquare_out_of_range [OF a b c d]
  have "squares (handleSquare ?s 11 None) = squares ?s @ replicate (11 - 9) Hole @ [Mk MarkX]
        \<and> isXNext (handleSquare ?s 11 None) = (\<not> isXNext ?s)"
    unfolding if_not_P [OF e] if_P [OF i] by blast
  then have small: "squares (handleSquare ?s 11 None)
        = [Null, Null, Null, Null, Null, Null, Null, Null, Null, Hole, Hole, Mk MarkX]
        \<and> \<not> isXNext (handleSquare ?s 11 None)"
    by (simp add: winnerEffect_initial nine_Null numeral_eq_Suc)
  from handleSquare_out_of_range [OF a b c' d]
  have "length (squares (handleSquare ?s 4294967296 None)) = 9
        \<and> squaresProps (handleSquare ?s 4294967296 None) = [4294967296 \<mapsto> Mk MarkX]
        \<and> isXNext (handleSquare ?s 4294967296 None) = (\<not> isXNext ?s)"
    unfolding if_not_P [OF e] if_not_P [OF i'] if_not_P [OF p] by blast
  then have big: "length (squares (handleSquare ?s 4294967296 None)) = 9
        \<and> squaresProps (handleSquare ?s 4294967296 None) = [4294967296 \<mapsto> Mk MarkX]
        \<and> \<not> isXNext (handleSquare ?s 4294967296 None)"
    by (simp add: winnerEffect_initial)
  from small big show ?thesis by blast
qed

section \<open>The marks alternate\<close>

lemma count_list_update:
  "i < length xs \<Longrightarrow> xs ! i \<noteq> c \<Longrightarrow>
     count_list (xs[i := v]) c = count_list xs c + (if v = c then 1 else 0)"
  by (induction xs arbitrary: i) (auto split: nat.splits)

lemma count_list_replicate_other: "h \<noteq> c \<Longrightarrow> count_list (replicate n h) c = 0"
  by (induction n) simp_all

lemma count_mark_assign:
  assumes "\<not> truthy (nth_js sq i)"
  shows "count_mark (assign sq i (Mk m)) m' = count_mark sq m' + (if m = m' then 1 else 0)"
proof (cases "i < length sq")
  case True
  with assms have "sq ! i \<noteq> Mk m'" by (auto simp: nth_js_def)
  with True show ?thesis by (simp add: count_mark_def assign_def count_list_update)
next
  case False
  then show ?thesis by (simp add: count_mark_def assign_def count_list_replicate_other)
qed

lemma length_assign_le:
  assumes "is_array_index i" and "length sq \<le> 4294967295"
  shows "length (assign sq i v) \<le> 4294967295"
  using assms by (simp add: assign_def is_array_index_def)

lemma handleSquare_index_cases:
  assumes "is_array_index i"
  shows "handleSquare s i markOverride = s
       \<or> (\<not> truthy (nth_js (squares s) i)
          \<and> \<not> (mode s = Ai \<and> markOverride = None \<and> \<not> isXNext s)
          \<and> handleSquare s i markOverride
              = s\<lparr>squares := assign (squares s) i
                      (Mk (case markOverride of Some m \<Rightarrow> m
                           | None \<Rightarrow> if isXNext s then MarkX else MarkO)),
                   squaresProps := Map.empty, step := step s + 1, isXNext := \<not> isXNext s\<rparr>)"
proof (cases "curWinLine s \<noteq> None \<or> truthy (read_js (squares s) (squaresProps s) i)
              \<or> (mode s = Ai \<and> markOverride = None \<and> \<not> isXNext s)")
  case True
  then show ?thesis by (simp add: handleSquare_returns_early)
next
  case False
  then have a: "curWinLine s = None" and b: "\<not> truthy (read_js (squares s) (squaresProps s) i)"
    and c: "\<not> (mode s = Ai \<and> markOverride = None \<and> \<not> isXNext s)"
    by blast+
  from handleSquare_stores [OF a b c refl] assms b c show ?thesis
    by (simp add: read_js_index)
qed

text \<open>The invariant of the reachable states: the marks alternate and the array has a
  length an array can have.\<close>

lemma alternating_winnerEffect: "alternating (winnerEffect s) = alternating s"
  by (simp add: alternating_def winnerEffect_fields)

lemma alternating_click:
  assumes "alternating s" and "is_array_index i"
  shows "alternating (handleSquare s i None)"
  using handleSquare_index_cases [OF assms(2), of s None] assms(1)
  by (auto simp: alternating_def count_mark_assign)

lemma alternating_computer:
  assumes "alternating s" and "\<not> isXNext s" and "is_array_index i"
  shows "alternating (handleSquare s i (Some MarkO))"
  using handleSquare_index_cases [OF assms(3), of s "Some MarkO"] assms(1,2)
  by (auto simp: alternating_def count_mark_assign)

lemma length_handleSquare:
  assumes "length (squares s) \<le> 4294967295" and "is_array_index i"
  shows "length (squares (handleSquare s i markOverride)) \<le> 4294967295"
  using handleSquare_index_cases [OF assms(2), of s markOverride] assms
  by (auto simp: length_assign_le)

lemma alternating_fresh:
  assumes "squares s = replicate 9 Null" and "isXNext s"
  shows "alternating s"
  using assms by (simp add: alternating_def count_mark_def count_list_replicate_other)

lemma getRandomEmptyIndex_index:
  assumes "length sq \<le> 4294967295" and "0 \<le> r" and "r < 1"
    and "getRandomEmptyIndex sq r = Some idx"
  shows "is_array_index idx"
  using getRandomEmptyIndex_Some [OF assms(2,3,4)] assms(1) by (simp add: is_array_index_def)

lemma reachable_invariant:
  "reachable s \<Longrightarrow> alternating s \<and> length (squares s) \<le> 4294967295"
proof (induction rule: reachable.induct)
  case mount
  show ?case by (simp add: alternating_winnerEffect winnerEffect_fields initial_def alternating_fresh)
next
  case (click s i)
  then show ?case
    by (simp add: applyMove_def alternating_winnerEffect winnerEffect_fields alternating_click
        length_handleSquare)
next
  case (computer s r)
  show ?case
  proof (cases "getRandomEmptyIndex (squares s) r")
    case None
    with computer.IH show ?thesis
      by (simp add: aiMove_def alternating_winnerEffect winnerEffect_fields)
  next
    case (Some idx)
    from computer.IH computer.hyps(3,4) Some have ix: "is_array_index idx"
      by (intro getRandomEmptyIndex_index [of "squares s" r idx]) simp_all
    from computer.hyps(2) have o: "\<not> isXNext s" by (simp add: aiTurn_def)
    from computer.IH ix o Some show ?thesis
      by (simp add: aiMove_def alternating_winnerEffect winnerEffect_fields alternating_computer
          length_handleSquare)
  qed
next
  case (reset s)
  show ?case
    by (simp add: alternating_winnerEffect winnerEffect_fields handleReset_def alternating_fresh)
next
  case (modeChange s modeKey)
  show ?case
    by (simp add: alternating_winnerEffect winnerEffect_fields handleModeChange_def handleReset_def
        alternating_fresh)
next
  case (themeToggle s)
  then show ?case by (simp add: alternating_def toggleTheme_def)
qed

text \<open>
  Claim C3. In every state the application reaches from its first render by clicks on
  squares (calls of \<open>handleSquare\<close> without a mark, at any array index), moves of the
  computer's timer (calls with \<open>O\<close>, made only in the mode against the computer, in
  progress, on \<open>O\<close>'s turn), resets, mode changes and theme toggles, the number of \<open>X\<close> minus
  the number of \<open>O\<close> is 0 or 1: there are never fewer \<open>X\<close> than \<open>O\<close>, and the counts are equal
  exactly when \<open>X\<close> is to move. Calls of \<open>handleSquare\<close> with a mark that the application
  never makes are not among these steps.
\<close>

theorem reachable_counts:
  assumes "reachable s"
  shows "int (count_mark (squares s) MarkX) - int (count_mark (squares s) MarkO) \<in> {0, 1}
       \<and> count_mark (squares s) MarkO \<le> count_mark (squares s) MarkX
       \<and> (isXNext s \<longleftrightarrow> count_mark (squares s) MarkX = count_mark (squares s) MarkO)"
proof -
  from reachable_invariant [OF assms] have "alternating s" ..
  then show ?thesis by (auto simp: alternating_def split: if_splits)
qed

theorem reachable_counts_witness:
  "reachable first_click_ai
   \<and> int (count_mark (squares first_click_ai) MarkX) - int (count_mark (squares first_click_ai) MarkO) = 1"
proof -
  have i: "is_array_index 0" by (simp add: is_array_index_def)
  have r: "reachable first_click_ai"
    unfolding first_click_ai_def
    by (intro reachable.click reachable.modeChange reachable.mount i)
  from reachable_counts [OF r] have "\<not> isXNext first_click_ai \<longrightarrow>
      int (count_mark (squares first_click_ai) MarkX) - int (count_mark (squares first_click_ai) MarkO) = 1"
    by auto
  with r show ?thesis by (simp add: first_click_ai_eq)
qed

end
